theory Spec2Isabelle
  imports Complex_Main
begin

section \<open>JavaScript \<open>Map\<close>: an insertion-ordered dictionary\<close>

text \<open>
  Both the cache and the rate limiter keep their entries in a JavaScript \<open>Map\<close>.
  A \<open>Map\<close> iterates in insertion order, \<open>set\<close> on a present key replaces the value
  where the key already stands, \<open>set\<close> on an absent key appends, and \<open>delete\<close> removes
  the key. It is modelled as an association list, oldest insertion first.
\<close>

type_synonym ('k, 'e) jsmap = "('k \<times> 'e) list"

definition Map_get :: "('k, 'e) jsmap \<Rightarrow> 'k \<Rightarrow> 'e option" where
  "Map_get m k = map_of m k"

definition Map_has :: "('k, 'e) jsmap \<Rightarrow> 'k \<Rightarrow> bool" where
  "Map_has m k = (map_of m k \<noteq> None)"

fun Map_set :: "'k \<Rightarrow> 'e \<Rightarrow> ('k, 'e) jsmap \<Rightarrow> ('k, 'e) jsmap" where
  "Map_set k e [] = [(k, e)]"
| "Map_set k e ((k', e') # m) = (if k' = k then (k, e) # m else (k', e') # Map_set k e m)"

definition Map_delete :: "'k \<Rightarrow> ('k, 'e) jsmap \<Rightarrow> ('k, 'e) jsmap" where
  "Map_delete k m = filter (\<lambda>p. fst p \<noteq> k) m"

definition Map_keys :: "('k, 'e) jsmap \<Rightarrow> 'k list" where
  "Map_keys m = map fst m"

section \<open>The bounded cache (\<open>LRUCache\<close>)\<close>

text \<open>
  \<open>Date.now()\<close> is an integer count of milliseconds; every operation that reads the
  clock takes the reading as its first argument \<open>now\<close>. \<open>maxSize\<close> and \<open>ttl\<close> are the
  numbers given to the constructor, which stores them unchecked.
\<close>

record 'v CacheEntry =
  entry_value :: 'v
  timestamp :: int
  accessCount :: int

record ('k, 'v) LRUCache =
  cache :: "('k, 'v CacheEntry) jsmap"
  maxSize :: int
  ttl :: int

datatype error =
    ConfigError
  | MissingApiKey
  | RateLimitExceeded
  | TypeError
  | ProviderFailure
  | IndexFailure
  | DbFailure

text \<open>
  The constructor has no \<open>throw\<close>: whatever the arguments, it returns an instance.
  Its result is given the type of a fallible construction so that rejection can be
  spoken about.
\<close>

definition LRUCache_new :: "int \<Rightarrow> int \<Rightarrow> error + ('k, 'v) LRUCache" where
  "LRUCache_new maxSize0 ttl0 = Inr \<lparr>cache = [], maxSize = maxSize0, ttl = ttl0\<rparr>"

definition LRUCache_get :: "int \<Rightarrow> 'k \<Rightarrow> ('k, 'v) LRUCache \<Rightarrow> 'v option \<times> ('k, 'v) LRUCache" where
  "LRUCache_get now key c =
     (case Map_get (cache c) key of
        None \<Rightarrow> (None, c)
      | Some entry \<Rightarrow>
          if now - timestamp entry > ttl c
          then (None, c\<lparr>cache := Map_delete key (cache c)\<rparr>)
          else
            let entry' = entry\<lparr>accessCount := accessCount entry + 1\<rparr>
            in (Some (entry_value entry'),
                c\<lparr>cache := Map_set key entry' (Map_delete key (cache c))\<rparr>))"

definition evict_first :: "('k, 'e) jsmap \<Rightarrow> ('k, 'e) jsmap" where
  \<comment> \<open>\<open>firstKey = cache.keys().next().value; cache.delete(firstKey)\<close>;
      on an empty map \<open>firstKey\<close> is \<open>undefined\<close> and nothing is deleted\<close>
  "evict_first m = (case m of [] \<Rightarrow> [] | (firstKey, _) # _ \<Rightarrow> Map_delete firstKey m)"

definition LRUCache_set :: "int \<Rightarrow> 'k \<Rightarrow> 'v \<Rightarrow> ('k, 'v) LRUCache \<Rightarrow> ('k, 'v) LRUCache" where
  "LRUCache_set now key v c =
     (case Map_get (cache c) key of
        Some entry \<Rightarrow>
          let entry' = entry\<lparr>entry_value := v, timestamp := now,
                             accessCount := accessCount entry + 1\<rparr>
          in c\<lparr>cache := Map_set key entry' (Map_delete key (cache c))\<rparr>
      | None \<Rightarrow>
          let m = (if int (length (cache c)) \<ge> maxSize c
                   then evict_first (cache c) else cache c)
          in c\<lparr>cache := Map_set key \<lparr>entry_value = v, timestamp = now, accessCount = 1\<rparr> m\<rparr>)"

definition LRUCache_has :: "int \<Rightarrow> 'k \<Rightarrow> ('k, 'v) LRUCache \<Rightarrow> bool \<times> ('k, 'v) LRUCache" where
  "LRUCache_has now key c =
     (case Map_get (cache c) key of
        None \<Rightarrow> (False, c)
      | Some entry \<Rightarrow>
          if now - timestamp entry > ttl c
          then (False, c\<lparr>cache := Map_delete key (cache c)\<rparr>)
          else (True, c))"

definition LRUCache_delete :: "'k \<Rightarrow> ('k, 'v) LRUCache \<Rightarrow> bool \<times> ('k, 'v) LRUCache" where
  "LRUCache_delete key c = (Map_has (cache c) key, c\<lparr>cache := Map_delete key (cache c)\<rparr>)"

definition LRUCache_clear :: "('k, 'v) LRUCache \<Rightarrow> ('k, 'v) LRUCache" where
  "LRUCache_clear c = c\<lparr>cache := []\<rparr>"

section \<open>Recency of the cache's keys\<close>

text \<open>
  The cache driven by a sequence of its operations. A key is touched by a \<open>set\<close> or a
  \<open>get\<close> of that key; \<open>last_touch ops k\<close> is the position (counted from 1) of the last
  operation of \<open>ops\<close> that touches \<open>k\<close>, and 0 when none does.
\<close>

datatype ('k, 'v) cache_op =
    Get int 'k
  | Set int 'k 'v
  | Has int 'k
  | Delete 'k
  | Clear

fun cache_step :: "('k, 'v) LRUCache \<Rightarrow> ('k, 'v) cache_op \<Rightarrow> ('k, 'v) LRUCache" where
  "cache_step c (Get now key) = snd (LRUCache_get now key c)"
| "cache_step c (Set now key v) = LRUCache_set now key v c"
| "cache_step c (Has now key) = snd (LRUCache_has now key c)"
| "cache_step c (Delete key) = snd (LRUCache_delete key c)"
| "cache_step c Clear = LRUCache_clear c"

definition cache_run :: "('k, 'v) LRUCache \<Rightarrow> ('k, 'v) cache_op list \<Rightarrow> ('k, 'v) LRUCache" where
  "cache_run c ops = foldl cache_step c ops"

fun touched :: "('k, 'v) cache_op \<Rightarrow> 'k option" where
  "touched (Get now key) = Some key"
| "touched (Set now key v) = Some key"
| "touched _ = None"

fun last_touch :: "('k, 'v) cache_op list \<Rightarrow> 'k \<Rightarrow> nat" where
  "last_touch [] k = 0"
| "last_touch (op # ops) k =
     (case last_touch ops k of
        0 \<Rightarrow> (if touched op = Some k then 1 else 0)
      | Suc n \<Rightarrow> Suc (Suc n))"

section \<open>The token-bucket rate limiter (\<open>RateLimiter\<close>)\<close>

text \<open>
  Token counts, the capacity and the cost of a request are integers; the refill rate
  (tokens per second) is a rational number, so that \<open>timeElapsed * refillRate\<close> is the
  exact product the source rounds down with \<open>Math.floor\<close>.
\<close>

record Bucket =
  tokens :: int
  lastRefill :: int

record RateLimiter =
  buckets :: "(string, Bucket) jsmap"
  capacity :: int
  refillRate :: rat
  windowMs :: int

definition RateLimiter_new :: "int \<Rightarrow> rat \<Rightarrow> int \<Rightarrow> error + RateLimiter" where
  "RateLimiter_new capacity0 refillRate0 windowMs0 =
     Inr \<lparr>buckets = [], capacity = capacity0, refillRate = refillRate0, windowMs = windowMs0\<rparr>"

definition tokensToAdd :: "RateLimiter \<Rightarrow> int \<Rightarrow> Bucket \<Rightarrow> int" where
  "tokensToAdd rl now bucket =
     (let timeElapsed = rat_of_int (now - lastRefill bucket) / 1000
      in \<lfloor>timeElapsed * refillRate rl\<rfloor>)"

definition RateLimiter_isAllowed :: "int \<Rightarrow> string \<Rightarrow> int \<Rightarrow> RateLimiter \<Rightarrow> bool \<times> RateLimiter" where
  "RateLimiter_isAllowed now identifier cost rl =
     (let (bucket, bs) =
            (case Map_get (buckets rl) identifier of
               Some b \<Rightarrow> (b, buckets rl)
             | None \<Rightarrow>
                 (let b = \<lparr>tokens = capacity rl, lastRefill = now\<rparr>
                  in (b, Map_set identifier b (buckets rl))));
          toAdd = tokensToAdd rl now bucket;
          bucket1 = (if toAdd > 0
                     then bucket\<lparr>tokens := min (capacity rl) (tokens bucket + toAdd),
                                 lastRefill := now\<rparr>
                     else bucket)
      in if tokens bucket1 \<ge> cost
         then (True, rl\<lparr>buckets := Map_set identifier (bucket1\<lparr>tokens := tokens bucket1 - cost\<rparr>) bs\<rparr>)
         else (False, rl\<lparr>buckets := Map_set identifier bucket1 bs\<rparr>))"

definition RateLimiter_getRemaining :: "int \<Rightarrow> string \<Rightarrow> RateLimiter \<Rightarrow> int \<times> RateLimiter" where
  "RateLimiter_getRemaining now identifier rl =
     (case Map_get (buckets rl) identifier of
        None \<Rightarrow> (capacity rl, rl)
      | Some bucket \<Rightarrow>
          (let currentTokens = min (capacity rl) (tokens bucket + tokensToAdd rl now bucket)
           in (max 0 currentTokens, rl)))"

definition RateLimiter_reset :: "string \<Rightarrow> RateLimiter \<Rightarrow> RateLimiter" where
  "RateLimiter_reset identifier rl = rl\<lparr>buckets := Map_delete identifier (buckets rl)\<rparr>"

definition RateLimiter_cleanup :: "int \<Rightarrow> RateLimiter \<Rightarrow> RateLimiter" where
  "RateLimiter_cleanup now rl =
     rl\<lparr>buckets := filter (\<lambda>(identifier, bucket). \<not> (now - lastRefill bucket > windowMs rl * 2))
                             (buckets rl)\<rparr>"

text \<open>The operations of the public interface, and a limiter driven by a sequence of them.\<close>

datatype limiter_op =
    IsAllowed int string int
  | GetRemaining int string
  | Reset string
  | Cleanup int

fun limiter_step :: "RateLimiter \<Rightarrow> limiter_op \<Rightarrow> RateLimiter" where
  "limiter_step rl (IsAllowed now identifier cost) = snd (RateLimiter_isAllowed now identifier cost rl)"
| "limiter_step rl (GetRemaining now identifier) = snd (RateLimiter_getRemaining now identifier rl)"
| "limiter_step rl (Reset identifier) = RateLimiter_reset identifier rl"
| "limiter_step rl (Cleanup now) = RateLimiter_cleanup now rl"

definition limiter_run :: "RateLimiter \<Rightarrow> limiter_op list \<Rightarrow> RateLimiter" where
  "limiter_run rl ops = foldl limiter_step rl ops"

definition bucket_ok :: "RateLimiter \<Rightarrow> bool" where
  "bucket_ok rl = list_all (\<lambda>(identifier, bucket). 0 \<le> tokens bucket \<and> tokens bucket \<le> capacity rl)
                           (buckets rl)"

fun admissions :: "int \<Rightarrow> string \<Rightarrow> nat \<Rightarrow> RateLimiter \<Rightarrow> bool list \<times> RateLimiter" where
  \<comment> \<open>\<open>n\<close> unit requests for one identifier, all at the clock reading \<open>now\<close>\<close>
  "admissions now identifier 0 rl = ([], rl)"
| "admissions now identifier (Suc n) rl =
     (let (a, rl1) = RateLimiter_isAllowed now identifier 1 rl;
          (as, rl2) = admissions now identifier n rl1
      in (a # as, rl2))"

fun nonneg_cost :: "limiter_op \<Rightarrow> bool" where
  "nonneg_cost (IsAllowed now identifier cost) = (0 \<le> cost)"
| "nonneg_cost _ = True"

definition the_bucket :: "int \<Rightarrow> string \<Rightarrow> RateLimiter \<Rightarrow> Bucket" where
  \<comment> \<open>the bucket \<open>isAllowed\<close> works on: the stored one, or the full one it creates\<close>
  "the_bucket now identifier rl =
     (case Map_get (buckets rl) identifier of
        Some b \<Rightarrow> b
      | None \<Rightarrow> \<lparr>tokens = capacity rl, lastRefill = now\<rparr>)"

definition available :: "int \<Rightarrow> string \<Rightarrow> RateLimiter \<Rightarrow> int" where
  \<comment> \<open>the token count after the lazy refill, which \<open>isAllowed\<close> compares with the cost\<close>
  "available now identifier rl =
     (let bucket = the_bucket now identifier rl;
          toAdd = tokensToAdd rl now bucket
      in if toAdd > 0 then min (capacity rl) (tokens bucket + toAdd) else tokens bucket)"

section \<open>The embedding gateway\<close>

text \<open>
  The collaborators outside the repository are parameters: \<open>sha256\<close> is the hex digest
  of \<open>crypto.createHash('sha256')\<close>, \<open>numStr\<close> is the text a template literal gives a
  number, \<open>createEmbeddings\<close> is \<open>openai.embeddings.create\<close> followed by the projection
  of \<open>response.data\<close> to its embeddings (\<open>Inl\<close> when the call rejects), and \<open>vectorQuery\<close>
  is the pgvector similarity query over the rows of the table.
\<close>

type_synonym vector = "rat list"

record Memory =
  mem_id :: string
  userId :: string
  content :: string
  embedding :: "vector option"
  metadata :: string
  importance :: string
  createdAt :: int
  updatedAt :: int

type_synonym ScoredMemory = "Memory \<times> rat"

record env =
  sha256 :: "string \<Rightarrow> string"
  numStr :: "rat \<Rightarrow> string"
  apiKey :: bool
  createEmbeddings :: "string list \<Rightarrow> error + vector list"
  vectorQuery :: "Memory list \<Rightarrow> string \<Rightarrow> vector \<Rightarrow> rat \<Rightarrow> int \<Rightarrow> error + ScoredMemory list"

text \<open>
  The gateway's module state: its cache, its limiter, and a log of the inputs of every
  provider call made so far. The limiter is the instance \<open>embeddingRateLimiter\<close> that
  the rate-limiter module constructs; how the module's import statement resolves that
  name is not part of the model.
\<close>

record gateway =
  embeddingCache :: "(string, vector) LRUCache"
  embeddingRateLimiter :: RateLimiter
  providerCalls :: "string list list"

definition hashText :: "env \<Rightarrow> string \<Rightarrow> string" where
  "hashText E text = sha256 E text"

text \<open>
  \<open>now\<close> is the clock while the synchronous part runs, \<open>later\<close> the clock once the
  awaited provider call has returned.
\<close>

definition generateEmbedding ::
  "env \<Rightarrow> int \<Rightarrow> int \<Rightarrow> string \<Rightarrow> gateway \<Rightarrow> (error + vector) \<times> gateway" where
  "generateEmbedding E now later text g =
     (if \<not> apiKey E then (Inl MissingApiKey, g)
      else
        let cacheKey = hashText E text;
            (cached, ec) = LRUCache_get now cacheKey (embeddingCache g);
            g1 = g\<lparr>embeddingCache := ec\<rparr>
        in case cached of
             Some v \<Rightarrow> (Inr v, g1)
           | None \<Rightarrow>
               let (allowed, rl) = RateLimiter_isAllowed now ''embedding-global'' 1 (embeddingRateLimiter g1);
                   g2 = g1\<lparr>embeddingRateLimiter := rl\<rparr>
               in if \<not> allowed then (Inl RateLimitExceeded, g2)
                  else
                    let g3 = g2\<lparr>providerCalls := providerCalls g2 @ [[text]]\<rparr>
                    in (case createEmbeddings E [text] of
                          Inl e \<Rightarrow> (Inl e, g3)
                        | Inr [] \<Rightarrow> (Inl TypeError, g3)
                        | Inr (v # _) \<Rightarrow>
                            (Inr v, g3\<lparr>embeddingCache := LRUCache_set later cacheKey v (embeddingCache g3)\<rparr>)))"







section \<open>The memory store\<close>

text \<open>
  The store's state: the per-user limiter, the query cache, the gateway, the rows of the
  \<open>Memory\<close> table, whether the database answers at all, and a count of the similarity
  queries sent to the vector index.
\<close>

record store =
  memoryRateLimiter :: RateLimiter
  queryCache :: "(string, ScoredMemory list) LRUCache"
  gateway :: gateway
  rows :: "Memory list"
  dbUp :: bool
  indexQueries :: nat

definition hashQuery :: "env \<Rightarrow> string \<Rightarrow> string \<Rightarrow> int \<Rightarrow> rat \<Rightarrow> string" where
  "hashQuery E user query limit threshold =
     sha256 E (user @ '':'' @ query @ '':'' @ numStr E (of_int limit) @ '':'' @ numStr E threshold)"

definition toLowerCase_char :: "char \<Rightarrow> char" where
  \<comment> \<open>the ASCII letters; other bytes are left as they are\<close>
  "toLowerCase_char c =
     (let n = (of_char c :: nat) in if 65 \<le> n \<and> n \<le> 90 then char_of (n + 32) else c)"

definition toLowerCase :: "string \<Rightarrow> string" where
  "toLowerCase s = map toLowerCase_char s"

fun String_includes :: "string \<Rightarrow> string \<Rightarrow> bool" where
  "String_includes [] needle = (needle = [])"
| "String_includes (c # cs) needle = (take (length needle) (c # cs) = needle \<or> String_includes cs needle)"

definition select_recent :: "string \<Rightarrow> int \<Rightarrow> Memory list \<Rightarrow> Memory list" where
  \<comment> \<open>\<open>where userId = user order by createdAt desc limit n\<close>\<close>
  "select_recent user limit ms =
     take (nat limit) (sort_key (\<lambda>m. - createdAt m) (filter (\<lambda>m. userId m = user) ms))"

definition score :: "string \<Rightarrow> Memory \<Rightarrow> ScoredMemory" where
  "score query mem =
     (let queryLower = toLowerCase query;
          contentLower = toLowerCase (content mem);
          similarity = (if String_includes contentLower queryLower then 8 / 10 else 5 / 10)
      in (mem, similarity))"

definition fallbackTextSearch ::
  "string \<Rightarrow> string \<Rightarrow> int \<Rightarrow> store \<Rightarrow> (error + ScoredMemory list) \<times> store" where
  \<comment> \<open>the select rejects when the database does not answer, and PostgreSQL rejects a
      negative \<open>LIMIT\<close>\<close>
  "fallbackTextSearch user query limit s =
     (if \<not> dbUp s \<or> limit < 0 then (Inl DbFailure, s)
      else (Inr (map (score query) (select_recent user limit (rows s))), s))"

definition searchMemories ::
  "env \<Rightarrow> int \<Rightarrow> int \<Rightarrow> string \<Rightarrow> string \<Rightarrow> int \<Rightarrow> rat \<Rightarrow> store
    \<Rightarrow> (error + ScoredMemory list) \<times> store" where
  "searchMemories E now later user query limit threshold s =
     (let (allowed, rl) = RateLimiter_isAllowed now user 1 (memoryRateLimiter s);
          s1 = s\<lparr>memoryRateLimiter := rl\<rparr>
      in if \<not> allowed then fallbackTextSearch user query limit s1
         else
           let cacheKey = hashQuery E user query limit threshold;
               (cached, qc) = LRUCache_get now cacheKey (queryCache s1);
               s2 = s1\<lparr>queryCache := qc\<rparr>
           in case cached of
                Some r \<Rightarrow> (Inr r, s2)
              | None \<Rightarrow>
                  (case generateEmbedding E now later query (gateway s2) of
                     (Inl e, g) \<Rightarrow> fallbackTextSearch user query limit (s2\<lparr>gateway := g\<rparr>)
                   | (Inr queryEmbedding, g) \<Rightarrow>
                       let s3 = s2\<lparr>gateway := g, indexQueries := indexQueries s2 + 1\<rparr>
                       in (case vectorQuery E (rows s3) user queryEmbedding threshold limit of
                             Inl e \<Rightarrow> fallbackTextSearch user query limit s3
                           | Inr typedResults \<Rightarrow>
                               (Inr typedResults,
                                s3\<lparr>queryCache := LRUCache_set later cacheKey typedResults (queryCache s3)\<rparr>))))"

definition deleteMemory :: "string \<Rightarrow> string \<Rightarrow> store \<Rightarrow> (error + bool) \<times> store" where
  "deleteMemory ident user s =
     (if \<not> dbUp s then (Inl DbFailure, s)
      else
        let result = filter (\<lambda>m. mem_id m = ident \<and> userId m = user) (rows s)
        in (Inr (length result > 0),
            s\<lparr>rows := filter (\<lambda>m. \<not> (mem_id m = ident \<and> userId m = user)) (rows s)\<rparr>))"

section \<open>Example collaborators and stores\<close>

text \<open>
  A stand-in environment for concrete runs: the digest is the identity on its input
  (so equal keys mean equal inputs), numbers print as \<open>5\<close> or \<open>0.7\<close>, the provider
  answers one vector per text, and the index answers every row of the user with the
  score 0.9. \<open>broken_index_env\<close> differs in an index that rejects every query.
\<close>

definition example_env :: env where
  "example_env =
     \<lparr>sha256 = (\<lambda>s. s),
      numStr = (\<lambda>q. if q = 5 then ''5'' else ''0.7''),
      apiKey = True,
      createEmbeddings = (\<lambda>ts. Inr (map (\<lambda>t. [of_nat (length t)]) ts)),
      vectorQuery = (\<lambda>ms u v th l. Inr (take (nat l) (map (\<lambda>m. (m, 9 / 10)) (filter (\<lambda>m. userId m = u) ms))))\<rparr>"

definition broken_index_env :: env where
  "broken_index_env = example_env\<lparr>vectorQuery := (\<lambda>ms u v th l. Inl IndexFailure)\<rparr>"

definition memory_row :: "string \<Rightarrow> string \<Rightarrow> string \<Rightarrow> int \<Rightarrow> Memory" where
  "memory_row ident user text created =
     \<lparr>mem_id = ident, userId = user, content = text, embedding = None, metadata = ''{}'',
      importance = ''medium'', createdAt = created, updatedAt = created\<rparr>"

definition example_rows :: "Memory list" where
  "example_rows =
     [memory_row ''m1'' ''u1'' ''Likes FOO bars'' 10,
      memory_row ''m2'' ''u2'' ''foo of another user'' 20,
      memory_row ''m3'' ''u1'' ''Lives in Oslo'' 30]"

definition example_store :: store where
  \<comment> \<open>the module state at start-up, with the constructor arguments of the source\<close>
  "example_store =
     \<lparr>memoryRateLimiter = \<lparr>buckets = [], capacity = 200, refillRate = 20, windowMs = 60000\<rparr>,
      queryCache = \<lparr>cache = [], maxSize = 200, ttl = 1800000\<rparr>,
      gateway = \<lparr>embeddingCache = \<lparr>cache = [], maxSize = 500, ttl = 86400000\<rparr>,
                 embeddingRateLimiter = \<lparr>buckets = [], capacity = 100, refillRate = 10, windowMs = 60000\<rparr>,
                 providerCalls = []\<rparr>,
      rows = example_rows,
      dbUp = True,
      indexQueries = 0\<rparr>"

definition exhausted :: "string \<Rightarrow> store \<Rightarrow> store" where
  \<comment> \<open>the store after the user has spent the whole bucket in one instant\<close>
  "exhausted user s =
     s\<lparr>memoryRateLimiter := snd (RateLimiter_isAllowed 0 user (capacity (memoryRateLimiter s))
                                   (memoryRateLimiter s))\<rparr>"

definition cached_store :: store where
  \<comment> \<open>\<open>example_store\<close> with a result list cached at time 0 for \<open>(u1, foo, 5, 0.7)\<close>\<close>
  "cached_store =
     example_store\<lparr>queryCache :=
       LRUCache_set 0 (hashQuery example_env ''u1'' ''foo'' 5 (7 / 10))
         [(memory_row ''m1'' ''u1'' ''Likes FOO bars'' 10, 9 / 10)]
         (queryCache example_store)\<rparr>"

definition private_store :: store where
  \<comment> \<open>a table whose only row belongs to the user \<open>a:b\<close>\<close>
  "private_store = example_store\<lparr>rows := [memory_row ''m9'' ''a:b'' ''private'' 1]\<rparr>"

section \<open>Facts about the ordered dictionary\<close>

lemma map_of_Map_delete: "map_of (Map_delete k m) k' = (if k' = k then None else map_of m k')"
  by (induction m) (auto simp: Map_delete_def)

lemma map_of_Map_set: "map_of (Map_set k e m) k' = (if k' = k then Some e else map_of m k')"
  by (induction m) auto

lemma Map_set_absent: "map_of m k = None \<Longrightarrow> Map_set k e m = m @ [(k, e)]"
  by (induction m) auto

lemma Map_set_after_delete: "Map_set k e (Map_delete k m) = Map_delete k m @ [(k, e)]"
  by (simp add: Map_set_absent map_of_Map_delete)


lemma Map_delete_hd: "distinct (map fst m) \<Longrightarrow> m \<noteq> [] \<Longrightarrow> Map_delete (fst (hd m)) m = tl m"
  by (cases m) (auto simp: Map_delete_def filter_id_conv rev_image_eqI)

lemma evict_first_tl: "distinct (map fst m) \<Longrightarrow> evict_first m = tl m"
  using Map_delete_hd[of m] by (cases m) (auto simp: evict_first_def)

lemma Map_get_after_set:
  "Map_get (cache (LRUCache_set t key v c)) key \<noteq> None \<and>
   entry_value (the (Map_get (cache (LRUCache_set t key v c)) key)) = v \<and>
   timestamp (the (Map_get (cache (LRUCache_set t key v c)) key)) = t"
  by (auto simp: LRUCache_set_def Map_get_def map_of_Map_set Let_def split: option.splits)

lemma ttl_LRUCache_set: "ttl (LRUCache_set t key v c) = ttl c"
  by (simp add: LRUCache_set_def Let_def split: option.splits)

lemma keys_Map_delete: "map fst (Map_delete k m) = filter (\<lambda>x. x \<noteq> k) (map fst m)"
  by (induction m) (auto simp: Map_delete_def)

lemma distinct_Map_delete: "distinct (map fst m) \<Longrightarrow> distinct (map fst (Map_delete k m))"
  by (simp add: keys_Map_delete)

lemma keys_Map_set:
  "map fst (Map_set k e m) = (if k \<in> set (map fst m) then map fst m else map fst m @ [k])"
  by (induction m) (auto simp: rev_image_eqI)

lemma distinct_Map_set: "distinct (map fst m) \<Longrightarrow> distinct (map fst (Map_set k e m))"
  by (simp add: keys_Map_set)

lemma distinct_evict_first: "distinct (map fst m) \<Longrightarrow> distinct (map fst (evict_first m))"
  by (cases m) (auto simp: evict_first_def keys_Map_delete)

lemma distinct_LRUCache_set:
  "distinct (Map_keys (cache c)) \<Longrightarrow> distinct (Map_keys (cache (LRUCache_set now key v c)))"
  by (simp add: LRUCache_set_def Map_keys_def Let_def distinct_Map_set distinct_Map_delete
      distinct_evict_first split: option.splits)

lemma distinct_LRUCache_get:
  "distinct (Map_keys (cache c)) \<Longrightarrow> distinct (Map_keys (cache (snd (LRUCache_get now key c))))"
  by (simp add: LRUCache_get_def Map_keys_def Let_def distinct_Map_set distinct_Map_delete
      split: option.splits)

lemma distinct_LRUCache_has:
  "distinct (Map_keys (cache c)) \<Longrightarrow> distinct (Map_keys (cache (snd (LRUCache_has now key c))))"
  by (simp add: LRUCache_has_def Map_keys_def distinct_Map_delete split: option.splits)


section \<open>Cache: least-recently-used eviction\<close>

lemma last_touch_le: "last_touch ops k \<le> length ops"
  by (induction ops) (auto split: nat.splits)

lemma last_touch_snoc:
  "last_touch (ops @ [op]) k = (if touched op = Some k then Suc (length ops) else last_touch ops k)"
  by (induction ops) (auto split: nat.splits)

lemma sorted_wrt_filter_cong:
  "sorted_wrt (<) (map f ks) \<Longrightarrow> (\<And>x. x \<in> set ks \<Longrightarrow> x \<noteq> k \<Longrightarrow> g x = f x) \<Longrightarrow>
     sorted_wrt (<) (map g (filter (\<lambda>x. x \<noteq> k) ks))"
  by (induction ks) (auto simp: sorted_wrt_map)

lemma sorted_wrt_cong_map:
  "sorted_wrt (<) (map f ks) \<Longrightarrow> (\<And>x. x \<in> set ks \<Longrightarrow> g x = f x) \<Longrightarrow>
     sorted_wrt (<) (map g ks)"
  by (induction ks) (auto simp: sorted_wrt_map)

lemma recency_touch:
  assumes "sorted_wrt (<) (map (last_touch ops) ks)" "touched op = Some k"
    "\<And>x. x \<in> set ks \<Longrightarrow> P x \<Longrightarrow> x \<noteq> k"
  shows "sorted_wrt (<) (map (last_touch (ops @ [op])) (filter P ks @ [k]))"
proof -
  have same: "\<And>x. x \<in> set (filter P ks) \<Longrightarrow> last_touch (ops @ [op]) x = last_touch ops x"
    using assms(2,3) by (auto simp: last_touch_snoc)
  have "sorted_wrt (<) (map (last_touch ops) (filter P ks))"
    using assms(1) by (simp add: sorted_wrt_map sorted_wrt_filter)
  then have "sorted_wrt (<) (map (last_touch (ops @ [op])) (filter P ks))"
    by (rule sorted_wrt_cong_map[where f = "last_touch ops"]) (use same in auto)
  moreover have "\<And>x. x \<in> set (filter P ks) \<Longrightarrow> last_touch (ops @ [op]) x < last_touch (ops @ [op]) k"
    using same assms(2) last_touch_le[of ops] by (simp add: last_touch_snoc le_imp_less_Suc)
  ultimately show ?thesis by (simp add: sorted_wrt_append)
qed

lemma recency_untouched: "touched op = None \<Longrightarrow> last_touch (ops @ [op]) = last_touch ops"
  by (rule ext) (simp add: last_touch_snoc)

lemma keys_evict_first:
  "map fst (evict_first m) = (case m of [] \<Rightarrow> [] | p # _ \<Rightarrow> filter (\<lambda>x. x \<noteq> fst p) (map fst m))"
  by (cases m) (auto simp: evict_first_def keys_Map_delete)

lemma recency_step:
  assumes "sorted_wrt (<) (map (last_touch ops) (Map_keys (cache c)))"
  shows "sorted_wrt (<) (map (last_touch (ops @ [op])) (Map_keys (cache (cache_step c op))))"
proof (cases op)
  case (Get now k)
  show ?thesis
  proof (cases "Map_get (cache c) k")
    case None
    then have "k \<notin> set (Map_keys (cache c))"
      by (simp add: Map_get_def Map_keys_def map_of_eq_None_iff)
    then have "\<And>x. x \<in> set (Map_keys (cache c)) \<Longrightarrow> last_touch (ops @ [op]) x = last_touch ops x"
      using Get by (auto simp: last_touch_snoc)
    then have "sorted_wrt (<) (map (last_touch (ops @ [op])) (Map_keys (cache c)))"
      by (intro sorted_wrt_cong_map[where f = "last_touch ops", OF assms]) auto
    then show ?thesis using Get None by (simp add: LRUCache_get_def)
  next
    case (Some e)
    show ?thesis
    proof (cases "now - timestamp e > ttl c")
      case True
      have "sorted_wrt (<) (map (last_touch (ops @ [op])) (filter (\<lambda>x. x \<noteq> k) (Map_keys (cache c))))"
        using Get by (intro sorted_wrt_filter_cong[where f = "last_touch ops", OF assms])
          (auto simp: last_touch_snoc)
      then show ?thesis using Get Some True
        by (simp add: LRUCache_get_def Map_keys_def keys_Map_delete)
    next
      case False
      have "sorted_wrt (<) (map (last_touch (ops @ [op]))
              (filter (\<lambda>x. x \<noteq> k) (Map_keys (cache c)) @ [k]))"
        using Get by (intro recency_touch[OF assms]) auto
      then show ?thesis using Get Some False
        by (simp add: LRUCache_get_def Map_keys_def Map_set_after_delete keys_Map_delete Let_def)
    qed
  qed
next
  case (Set now k v)
  show ?thesis
  proof (cases "Map_get (cache c) k")
    case (Some e)
    have "sorted_wrt (<) (map (last_touch (ops @ [op]))
            (filter (\<lambda>x. x \<noteq> k) (Map_keys (cache c)) @ [k]))"
      using Set by (intro recency_touch[OF assms]) auto
    then show ?thesis using Set Some
      by (simp add: LRUCache_set_def Map_keys_def Map_set_after_delete keys_Map_delete Let_def)
  next
    case None
    then have absent: "map_of (cache c) k = None" by (simp add: Map_get_def)
    then have notin: "k \<notin> set (Map_keys (cache c))"
      by (simp add: Map_keys_def map_of_eq_None_iff)
    show ?thesis
    proof (cases "int (length (cache c)) \<ge> maxSize c")
      case False
      have "sorted_wrt (<) (map (last_touch (ops @ [op]))
              (filter (\<lambda>x. True) (Map_keys (cache c)) @ [k]))"
        using Set notin by (intro recency_touch[OF assms]) auto
      then show ?thesis using Set None False absent
        by (simp add: LRUCache_set_def Map_keys_def Map_set_absent)
    next
      case True
      show ?thesis
      proof (cases "cache c")
        case Nil
        then show ?thesis using Set None True
          by (simp add: LRUCache_set_def Map_keys_def evict_first_def)
      next
        case (Cons p m)
        have "sorted_wrt (<) (map (last_touch (ops @ [op]))
                (filter (\<lambda>x. x \<noteq> fst p) (Map_keys (cache c)) @ [k]))"
          using Set notin by (intro recency_touch[OF assms]) auto
        moreover have "map_of (evict_first (cache c)) k = None"
          using absent Cons
          by (cases p) (auto simp: evict_first_def map_of_Map_delete split: if_splits)
        ultimately show ?thesis using Set None True Cons
          by (simp add: LRUCache_set_def Map_keys_def Map_set_absent keys_evict_first)
      qed
    qed
  qed
next
  case (Has now k)
  then have same: "last_touch (ops @ [op]) = last_touch ops" by (simp add: recency_untouched)
  have "sorted_wrt (<) (map (last_touch ops) (filter (\<lambda>x. x \<noteq> k) (Map_keys (cache c))))"
    using assms by (simp add: sorted_wrt_map sorted_wrt_filter)
  moreover have "Map_keys (cache (cache_step c op)) = Map_keys (cache c)
      \<or> Map_keys (cache (cache_step c op)) = filter (\<lambda>x. x \<noteq> k) (Map_keys (cache c))"
    using Has by (simp add: LRUCache_has_def Map_keys_def keys_Map_delete split: option.splits)
  ultimately show ?thesis using assms same by auto
next
  case (Delete k)
  then have same: "last_touch (ops @ [op]) = last_touch ops" by (simp add: recency_untouched)
  have "sorted_wrt (<) (map (last_touch ops) (filter (\<lambda>x. x \<noteq> k) (Map_keys (cache c))))"
    using assms by (simp add: sorted_wrt_map sorted_wrt_filter)
  then show ?thesis using Delete same
    by (simp add: LRUCache_delete_def Map_keys_def keys_Map_delete)
next
  case Clear
  then show ?thesis by (simp add: LRUCache_clear_def Map_keys_def)
qed

lemma recency_run:
  "cache c = [] \<Longrightarrow>
     sorted_wrt (<) (map (last_touch ops) (Map_keys (cache (cache_run c ops))))"
proof (induction ops rule: rev_induct)
  case Nil
  then show ?case by (simp add: cache_run_def Map_keys_def)
next
  case (snoc op ops)
  then have "sorted_wrt (<) (map (last_touch ops) (Map_keys (cache (cache_run c ops))))" by simp
  from recency_step[OF this, of op] show ?case by (simp add: cache_run_def)
qed

lemma recency_distinct:
  "sorted_wrt (<) (map (f :: 'k \<Rightarrow> nat) ks) \<Longrightarrow> distinct ks"
  by (induction ks) auto


text \<open>
  Claim C3. A cache of capacity 2 that receives \<open>set A\<close>, \<open>set B\<close>, \<open>get A\<close>, \<open>set C\<close>
  (the read of \<open>A\<close> being a hit, that is, \<open>A\<close> not yet older than the time to live)
  ends up holding \<open>A\<close> and \<open>C\<close> and not \<open>B\<close>. In general, the entries stand in recency
  order, oldest first: inserting a key that is absent into a non-empty cache whose size
  has reached \<open>maxSize\<close> removes exactly the first entry, keeps every other entry as it
  is, and appends the new one; a hit of \<open>get\<close> moves its key to the most recent end.
  And in every cache reached from an empty one by a sequence of operations, the first
  key, which such an insertion evicts, was last touched (by \<open>set\<close> or \<open>get\<close>) strictly
  before every other key present.
\<close>

theorem C3_lru_eviction:
  "(LRUCache_new 2 T = Inr c0 \<and> A \<noteq> B \<and> A \<noteq> C \<and> B \<noteq> C \<and> t3 - t1 \<le> T \<longrightarrow>
      (let c1 = LRUCache_set t1 A a c0;
           c2 = LRUCache_set t2 B b c1;
           (r, c3) = LRUCache_get t3 A c2;
           c4 = LRUCache_set t4 C c c3
       in r = Some a \<and> Map_keys (cache c4) = [A, C] \<and> \<not> Map_has (cache c4) B
          \<and> Map_has (cache c4) A \<and> Map_has (cache c4) C))
   \<and> (distinct (Map_keys (cache d)) \<and> cache d \<noteq> [] \<and> int (length (cache d)) \<ge> maxSize d
        \<and> \<not> Map_has (cache d) key \<longrightarrow>
        cache (LRUCache_set now key v d) =
          tl (cache d) @ [(key, \<lparr>entry_value = v, timestamp = now, accessCount = 1\<rparr>)])
   \<and> (Map_get (cache d') k = Some e \<and> t - timestamp e \<le> ttl d' \<longrightarrow>
        LRUCache_get t k d' =
          (Some (entry_value e),
           d'\<lparr>cache := Map_delete k (cache d') @ [(k, e\<lparr>accessCount := accessCount e + 1\<rparr>)]\<rparr>))
   \<and> (cache e0 = [] \<and> cache (cache_run e0 ops) \<noteq> []
        \<and> int (length (cache (cache_run e0 ops))) \<ge> maxSize (cache_run e0 ops)
        \<and> \<not> Map_has (cache (cache_run e0 ops)) key' \<longrightarrow>
        (let keys = Map_keys (cache (cache_run e0 ops))
         in Map_keys (cache (LRUCache_set now' key' v' (cache_run e0 ops))) = tl keys @ [key']
            \<and> (\<forall>k' \<in> set (tl keys). last_touch ops (hd keys) < last_touch ops k')))"
proof (intro conjI impI)
  assume "LRUCache_new 2 T = Inr c0 \<and> A \<noteq> B \<and> A \<noteq> C \<and> B \<noteq> C \<and> t3 - t1 \<le> T"
  then show "let c1 = LRUCache_set t1 A a c0;
           c2 = LRUCache_set t2 B b c1;
           (r, c3) = LRUCache_get t3 A c2;
           c4 = LRUCache_set t4 C c c3
       in r = Some a \<and> Map_keys (cache c4) = [A, C] \<and> \<not> Map_has (cache c4) B
          \<and> Map_has (cache c4) A \<and> Map_has (cache c4) C"
    by (auto simp: LRUCache_new_def LRUCache_set_def LRUCache_get_def Map_get_def Map_has_def
        Map_keys_def Map_delete_def evict_first_def Let_def)
next
  assume h: "distinct (Map_keys (cache d)) \<and> cache d \<noteq> [] \<and> int (length (cache d)) \<ge> maxSize d
        \<and> \<not> Map_has (cache d) key"
  then have absent: "map_of (cache d) key = None" by (simp add: Map_has_def)
  have "map_of (tl (cache d)) key = None"
    using absent by (cases "cache d") (auto split: if_splits)
  then show "cache (LRUCache_set now key v d) =
          tl (cache d) @ [(key, \<lparr>entry_value = v, timestamp = now, accessCount = 1\<rparr>)]"
    using h absent
    by (simp add: LRUCache_set_def Map_get_def Map_keys_def evict_first_tl Map_set_absent)
next
  assume "Map_get (cache d') k = Some e \<and> t - timestamp e \<le> ttl d'"
  then show "LRUCache_get t k d' =
          (Some (entry_value e),
           d'\<lparr>cache := Map_delete k (cache d') @ [(k, e\<lparr>accessCount := accessCount e + 1\<rparr>)]\<rparr>)"
    by (simp add: LRUCache_get_def Map_set_after_delete)
next
  let ?c = "cache_run e0 ops"
  assume h: "cache e0 = [] \<and> cache ?c \<noteq> [] \<and> int (length (cache ?c)) \<ge> maxSize ?c
        \<and> \<not> Map_has (cache ?c) key'"
  then have ordered: "sorted_wrt (<) (map (last_touch ops) (Map_keys (cache ?c)))"
    by (simp add: recency_run)
  then have dist: "distinct (Map_keys (cache ?c))" by (rule recency_distinct)
  from h have absent: "map_of (cache ?c) key' = None" by (simp add: Map_has_def)
  have "map_of (tl (cache ?c)) key' = None"
    using absent by (cases "cache ?c") (auto split: if_splits)
  then have "cache (LRUCache_set now' key' v' ?c) =
          tl (cache ?c) @ [(key', \<lparr>entry_value = v', timestamp = now', accessCount = 1\<rparr>)]"
    using h absent dist
    by (simp add: LRUCache_set_def Map_get_def Map_keys_def evict_first_tl Map_set_absent)
  then have keys: "Map_keys (cache (LRUCache_set now' key' v' ?c)) = tl (Map_keys (cache ?c)) @ [key']"
    by (simp add: Map_keys_def map_tl)
  have least: "\<forall>k' \<in> set (tl (Map_keys (cache ?c))).
      last_touch ops (hd (Map_keys (cache ?c))) < last_touch ops k'"
    using ordered by (cases "Map_keys (cache ?c)") auto
  show "let keys = Map_keys (cache ?c)
         in Map_keys (cache (LRUCache_set now' key' v' ?c)) = tl keys @ [key']
            \<and> (\<forall>k' \<in> set (tl keys). last_touch ops (hd keys) < last_touch ops k')"
    using keys least by (simp add: Let_def)
qed


text \<open>The statement above at concrete keys, values and clock readings.\<close>

theorem C3_lru_eviction_witness:
  "(let c0 = \<lparr>cache = [], maxSize = 2, ttl = 1000\<rparr>;
        c1 = LRUCache_set 0 ''A'' (1::nat) c0;
        c2 = LRUCache_set 1 ''B'' 2 c1;
        (r, c3) = LRUCache_get 2 ''A'' c2;
        c4 = LRUCache_set 3 ''C'' 3 c3
    in r = Some 1 \<and> Map_keys (cache c4) = [''A'', ''C''] \<and> \<not> Map_has (cache c4) ''B''
       \<and> Map_has (cache c4) ''A'' \<and> Map_has (cache c4) ''C'')
   \<and> cache (LRUCache_set 3 ''C'' (3::nat)
        \<lparr>cache = [(''B'', \<lparr>entry_value = 2, timestamp = 1, accessCount = 1\<rparr>),
                  (''A'', \<lparr>entry_value = 1, timestamp = 0, accessCount = 2\<rparr>)],
         maxSize = 2, ttl = 1000\<rparr>)
      = [(''A'', \<lparr>entry_value = 1, timestamp = 0, accessCount = 2\<rparr>),
         (''C'', \<lparr>entry_value = 3, timestamp = 3, accessCount = 1\<rparr>)]
   \<and> LRUCache_get 2 ''A''
        \<lparr>cache = [(''A'', \<lparr>entry_value = 1::nat, timestamp = 0, accessCount = 1\<rparr>),
                  (''B'', \<lparr>entry_value = 2, timestamp = 1, accessCount = 1\<rparr>)],
         maxSize = 2, ttl = 1000\<rparr>
      = (Some 1,
         \<lparr>cache = [(''B'', \<lparr>entry_value = 2, timestamp = 1, accessCount = 1\<rparr>),
                   (''A'', \<lparr>entry_value = 1, timestamp = 0, accessCount = 2\<rparr>)],
          maxSize = 2, ttl = 1000\<rparr>)
   \<and> Map_keys (cache (cache_run \<lparr>cache = [], maxSize = 2, ttl = 1000\<rparr>
          [Set 0 ''A'' (1::nat), Set 1 ''B'' 2, Get 2 ''A''])) = [''B'', ''A'']
   \<and> Map_keys (cache (LRUCache_set 3 ''C'' 3 (cache_run \<lparr>cache = [], maxSize = 2, ttl = 1000\<rparr>
          [Set 0 ''A'' (1::nat), Set 1 ''B'' 2, Get 2 ''A'']))) = [''A'', ''C'']
   \<and> last_touch [Set 0 ''A'' (1::nat), Set 1 ''B'' 2, Get 2 ''A''] ''B''
       < last_touch [Set 0 ''A'' (1::nat), Set 1 ''B'' 2, Get 2 ''A''] ''A''"
  using C3_lru_eviction [where T = 1000 and ?c0.0 = "\<lparr>cache = [], maxSize = 2, ttl = 1000\<rparr>"
      and A = "''A''" and B = "''B''" and C = "''C''" and ?t1.0 = 0 and ?t2.0 = 1 and ?t3.0 = 2
      and ?t4.0 = 3 and a = "1::nat" and b = 2 and c = 3
      and d = "\<lparr>cache = [(''B'', \<lparr>entry_value = 2::nat, timestamp = 1, accessCount = 1\<rparr>),
                  (''A'', \<lparr>entry_value = 1, timestamp = 0, accessCount = 2\<rparr>)],
         maxSize = 2, ttl = 1000\<rparr>" and key = "''C''" and now = 3 and v = 3
      and d' = "\<lparr>cache = [(''A'', \<lparr>entry_value = 1::nat, timestamp = 0, accessCount = 1\<rparr>),
                  (''B'', \<lparr>entry_value = 2, timestamp = 1, accessCount = 1\<rparr>)],
         maxSize = 2, ttl = 1000\<rparr>" and k = "''A''" and t = 2
      and e = "\<lparr>entry_value = 1::nat, timestamp = 0, accessCount = 1\<rparr>"
      and ?e0.0 = "\<lparr>cache = [], maxSize = 2, ttl = 1000\<rparr>"
      and ops = "[Set 0 ''A'' (1::nat), Set 1 ''B'' 2, Get 2 ''A'']"
      and key' = "''C''" and now' = 3 and v' = 3]
  by (simp add: LRUCache_new_def Map_keys_def Map_has_def Map_get_def Map_delete_def cache_run_def
      LRUCache_set_def LRUCache_get_def evict_first_def)

section \<open>Cache: a time to live of zero\<close>

text \<open>
  Claim C10 as stated, refuted: with \<open>ttl = 0\<close>, a \<open>get\<close> or \<open>has\<close> at the very clock
  reading of the \<open>set\<close> is not absent. The test is \<open>now - timestamp > ttl\<close>, and
  \<open>0 > 0\<close> is false.
\<close>

theorem C10_ttl_zero_counterexample:
  "fst (LRUCache_get 5 ''k'' (LRUCache_set 5 ''k'' (1::nat) \<lparr>cache = [], maxSize = 100, ttl = 0\<rparr>)) = Some 1
   \<and> fst (LRUCache_has 5 ''k'' (LRUCache_set 5 ''k'' (1::nat) \<lparr>cache = [], maxSize = 100, ttl = 0\<rparr>)) = True"
  by (simp add: LRUCache_get_def LRUCache_has_def LRUCache_set_def Map_get_def)

text \<open>
  Claim C10, amended. In a cache with \<open>ttl = 0\<close>, after \<open>set\<close> at clock reading \<open>t\<close>
  every \<open>get\<close> and \<open>has\<close> of that key at a strictly later reading reports it absent,
  while at the reading \<open>t\<close> itself the stored value is still returned. More generally,
  whatever happened since, an entry whose timestamp is before the current reading is
  reported absent.
\<close>

theorem C10_ttl_zero_stale_after_clock_advances:
  "ttl c = 0 \<longrightarrow>
     (t < now \<longrightarrow>
        fst (LRUCache_get now key (LRUCache_set t key v c)) = None
        \<and> fst (LRUCache_has now key (LRUCache_set t key v c)) = False)
     \<and> fst (LRUCache_get t key (LRUCache_set t key v c)) = Some v
     \<and> fst (LRUCache_has t key (LRUCache_set t key v c)) = True
     \<and> (Map_get (cache c) k = Some e \<and> timestamp e < now \<longrightarrow>
          fst (LRUCache_get now k c) = None \<and> fst (LRUCache_has now k c) = False)"
proof
  assume z: "ttl c = 0"
  obtain e' where e: "Map_get (cache (LRUCache_set t key v c)) key = Some e'"
    "entry_value e' = v" "timestamp e' = t"
    using Map_get_after_set[of t key v c] by auto
  have T: "ttl (LRUCache_set t key v c) = 0" using z by (simp add: ttl_LRUCache_set)
  have fresh: "(t < now \<longrightarrow>
        fst (LRUCache_get now key (LRUCache_set t key v c)) = None
        \<and> fst (LRUCache_has now key (LRUCache_set t key v c)) = False)
     \<and> fst (LRUCache_get t key (LRUCache_set t key v c)) = Some v
     \<and> fst (LRUCache_has t key (LRUCache_set t key v c)) = True"
    using e T by (simp add: LRUCache_get_def LRUCache_has_def Let_def)
  have stored: "Map_get (cache c) k = Some e \<and> timestamp e < now \<longrightarrow>
          fst (LRUCache_get now k c) = None \<and> fst (LRUCache_has now k c) = False"
    using z by (simp add: LRUCache_get_def LRUCache_has_def)
  show "(t < now \<longrightarrow>
        fst (LRUCache_get now key (LRUCache_set t key v c)) = None
        \<and> fst (LRUCache_has now key (LRUCache_set t key v c)) = False)
     \<and> fst (LRUCache_get t key (LRUCache_set t key v c)) = Some v
     \<and> fst (LRUCache_has t key (LRUCache_set t key v c)) = True
     \<and> (Map_get (cache c) k = Some e \<and> timestamp e < now \<longrightarrow>
          fst (LRUCache_get now k c) = None \<and> fst (LRUCache_has now k c) = False)"
    using fresh stored by blast
qed

text \<open>The amended statement one millisecond after the insertion.\<close>

theorem C10_ttl_zero_stale_after_clock_advances_witness:
  "fst (LRUCache_get 6 ''k'' (LRUCache_set 5 ''k'' (1::nat) \<lparr>cache = [], maxSize = 100, ttl = 0\<rparr>)) = None
   \<and> fst (LRUCache_has 6 ''k'' (LRUCache_set 5 ''k'' (1::nat) \<lparr>cache = [], maxSize = 100, ttl = 0\<rparr>)) = False
   \<and> fst (LRUCache_get 6 ''j''
        \<lparr>cache = [(''j'', \<lparr>entry_value = 2::nat, timestamp = 5, accessCount = 3\<rparr>)],
         maxSize = 100, ttl = 0\<rparr>) = None"
  using C10_ttl_zero_stale_after_clock_advances [where c = "\<lparr>cache = [], maxSize = 100, ttl = 0\<rparr>"
      and t = 5 and now = 6 and key = "''k''" and v = "1::nat"]
    C10_ttl_zero_stale_after_clock_advances [where
      c = "\<lparr>cache = [(''j'', \<lparr>entry_value = 2::nat, timestamp = 5, accessCount = 3\<rparr>)],
         maxSize = 100, ttl = 0\<rparr>"
      and now = 6 and k = "''j''" and e = "\<lparr>entry_value = 2::nat, timestamp = 5, accessCount = 3\<rparr>"
      and t = 5 and key = "''k''" and v = "1::nat"]
  by (simp add: Map_get_def)


section \<open>Construction with an invalid configuration\<close>

lemma isAllowed_fresh_denied:
  "buckets rl = [] \<Longrightarrow> capacity rl < cost \<Longrightarrow> \<not> fst (RateLimiter_isAllowed now ident cost rl)"
  by (simp add: RateLimiter_isAllowed_def Map_get_def tokensToAdd_def Let_def)

text \<open>
  Claim C9 as stated, refuted: neither constructor rejects a capacity of zero, a negative
  capacity, a negative time to live or a negative rate; each returns an instance.
\<close>

theorem C9_constructor_counterexample:
  "\<not> isl (LRUCache_new 0 3600000 :: error + (string, nat) LRUCache)
   \<and> \<not> isl (LRUCache_new (- 5) 3600000 :: error + (string, nat) LRUCache)
   \<and> \<not> isl (LRUCache_new 100 (- 1) :: error + (string, nat) LRUCache)
   \<and> \<not> isl (RateLimiter_new 0 10 60000)
   \<and> \<not> isl (RateLimiter_new (- 1) (- 10) (- 60000))"
  by (simp add: LRUCache_new_def RateLimiter_new_def)

text \<open>
  Claim C9, amended. The constructors check nothing: for every configuration they return
  an instance that holds the given numbers and an empty map. A cache built with
  \<open>maxSize \<le> 0\<close> still stores the value of a \<open>set\<close> and returns it on a \<open>get\<close> within
  the time to live, holding one entry; a limiter built with \<open>capacity \<le> 0\<close> denies
  every first request of positive cost.
\<close>

theorem C9_constructors_do_not_validate:
  "(\<exists>c. (LRUCache_new m t :: error + ('k, 'v) LRUCache) = Inr c
        \<and> cache c = [] \<and> maxSize c = m \<and> ttl c = t
        \<and> (m \<le> 0 \<and> now' - now \<le> t \<longrightarrow>
             fst (LRUCache_get now' key (LRUCache_set now key v c)) = Some v
             \<and> length (cache (LRUCache_set now key v c)) = 1))
   \<and> (\<exists>rl. RateLimiter_new cap rate w = Inr rl
         \<and> buckets rl = [] \<and> capacity rl = cap \<and> refillRate rl = rate \<and> windowMs rl = w
         \<and> (cap \<le> 0 \<and> 0 < cost \<longrightarrow> \<not> fst (RateLimiter_isAllowed now ident cost rl)))"
  by (simp add: LRUCache_new_def RateLimiter_new_def LRUCache_set_def LRUCache_get_def
      Map_get_def evict_first_def isAllowed_fresh_denied)

text \<open>The amended statement for a capacity of zero.\<close>

theorem C9_constructors_do_not_validate_witness:
  "(\<exists>c. (LRUCache_new 0 1000 :: error + (string, nat) LRUCache) = Inr c
        \<and> fst (LRUCache_get 7 ''k'' (LRUCache_set 7 ''k'' 1 c)) = Some 1
        \<and> length (cache (LRUCache_set 7 ''k'' 1 c)) = 1)
   \<and> (\<exists>rl. RateLimiter_new 0 10 60000 = Inr rl \<and> \<not> fst (RateLimiter_isAllowed 7 ''u'' 1 rl))"
  using C9_constructors_do_not_validate [where m = 0 and t = 1000 and now = 7 and now' = 7
      and key = "''k''" and v = "1::nat" and cap = 0 and rate = 10 and w = 60000 and cost = 1
      and ident = "''u''"]
  by auto

section \<open>Rate limiter: the bounds of a bucket\<close>

lemma list_all_Map_set: "list_all P m \<Longrightarrow> P (k, e) \<Longrightarrow> list_all P (Map_set k e m)"
  by (induction m) auto

lemma list_all_map_of: "list_all P m \<Longrightarrow> map_of m k = Some e \<Longrightarrow> P (k, e)"
  by (induction m) (auto split: if_splits)

lemma tokensToAdd_same_instant: "lastRefill b = now \<Longrightarrow> tokensToAdd rl now b = 0"
  by (simp add: tokensToAdd_def)

lemma bucket_ok_isAllowed:
  assumes "0 \<le> capacity rl" "0 \<le> cost" "bucket_ok rl"
  shows "bucket_ok (snd (RateLimiter_isAllowed now ident cost rl))"
proof -
  let ?P = "\<lambda>(i :: string, b). 0 \<le> tokens b \<and> tokens b \<le> capacity rl"
  have all: "list_all ?P (buckets rl)" using assms(3) by (simp add: bucket_ok_def)
  show ?thesis
  proof (cases "Map_get (buckets rl) ident")
    case None
    then show ?thesis using assms all
      by (auto simp: RateLimiter_isAllowed_def bucket_ok_def Let_def intro!: list_all_Map_set)
  next
    case (Some b)
    then have "?P (ident, b)" using all list_all_map_of[of ?P "buckets rl" ident b]
      by (simp add: Map_get_def)
    then show ?thesis using Some assms all
      by (auto simp: RateLimiter_isAllowed_def bucket_ok_def Let_def intro!: list_all_Map_set)
  qed
qed

lemma capacity_isAllowed [simp]:
  "capacity (snd (RateLimiter_isAllowed now ident cost rl)) = capacity rl"
  by (simp add: RateLimiter_isAllowed_def Let_def split: option.splits prod.splits)

lemma refillRate_isAllowed [simp]:
  "refillRate (snd (RateLimiter_isAllowed now ident cost rl)) = refillRate rl"
  by (simp add: RateLimiter_isAllowed_def Let_def split: option.splits prod.splits)

lemma bucket_ok_step:
  "0 \<le> capacity rl \<Longrightarrow> nonneg_cost op \<Longrightarrow> bucket_ok rl \<Longrightarrow>
     bucket_ok (limiter_step rl op) \<and> capacity (limiter_step rl op) = capacity rl"
proof (cases op)
  case (IsAllowed now ident cost)
  assume "0 \<le> capacity rl" "nonneg_cost op" "bucket_ok rl"
  then show ?thesis using IsAllowed by (simp add: bucket_ok_isAllowed)
next
  case (GetRemaining now ident)
  assume "bucket_ok rl"
  then show ?thesis using GetRemaining
    by (simp add: RateLimiter_getRemaining_def Let_def split: option.splits)
next
  case (Reset ident)
  assume "bucket_ok rl"
  then show ?thesis using Reset
    by (simp add: RateLimiter_reset_def Map_delete_def bucket_ok_def list_all_iff)
next
  case (Cleanup now)
  assume "bucket_ok rl"
  then show ?thesis using Cleanup
    by (simp add: RateLimiter_cleanup_def bucket_ok_def list_all_iff)
qed

lemma bucket_ok_run:
  "0 \<le> capacity rl \<Longrightarrow> list_all nonneg_cost ops \<Longrightarrow> bucket_ok rl \<Longrightarrow>
     bucket_ok (limiter_run rl ops)"
  unfolding limiter_run_def
proof (induction ops arbitrary: rl)
  case Nil
  then show ?case by simp
next
  case (Cons op ops)
  have "bucket_ok (limiter_step rl op) \<and> capacity (limiter_step rl op) = capacity rl"
    using Cons.prems by (simp add: bucket_ok_step)
  then show ?case using Cons by simp
qed

lemma getRemaining_bounds:
  "0 \<le> capacity rl \<Longrightarrow> 0 \<le> fst (RateLimiter_getRemaining now ident rl)
     \<and> fst (RateLimiter_getRemaining now ident rl) \<le> capacity rl"
  by (simp add: RateLimiter_getRemaining_def Let_def split: option.splits)

lemma Map_set_Map_set: "Map_set k e' (Map_set k e m) = Map_set k e' m"
  by (induction m) auto

lemma Bucket_update_tokens: "(b :: Bucket)\<lparr>tokens := x\<rparr> = \<lparr>tokens = x, lastRefill = lastRefill b\<rparr>"
  by (cases b) simp

lemma Bucket_update_lastRefill: "(b :: Bucket)\<lparr>lastRefill := y\<rparr> = \<lparr>tokens = tokens b, lastRefill = y\<rparr>"
  by (cases b) simp

lemma Bucket_eta: "\<lparr>tokens = tokens b, lastRefill = lastRefill b\<rparr> = (b :: Bucket)"
  by (cases b) simp

lemma Map_set_same: "map_of m k = Some e \<Longrightarrow> Map_set k e m = m"
  by (induction m) (auto split: if_splits)

lemma isAllowed_effect:
  "RateLimiter_isAllowed now ident cost rl =
     (cost \<le> available now ident rl,
      rl\<lparr>buckets := Map_set ident
            \<lparr>tokens = (if cost \<le> available now ident rl then available now ident rl - cost
                        else available now ident rl),
             lastRefill = (if tokensToAdd rl now (the_bucket now ident rl) > 0 then now
                           else lastRefill (the_bucket now ident rl))\<rparr>
            (buckets rl)\<rparr>)"
  by (cases "Map_get (buckets rl) ident")
     (auto simp: RateLimiter_isAllowed_def available_def the_bucket_def Let_def Map_set_Map_set
        Bucket_update_tokens Bucket_update_lastRefill Bucket_eta)

lemma the_bucket_after_isAllowed:
  "the_bucket now' ident (snd (RateLimiter_isAllowed now ident cost rl)) =
     \<lparr>tokens = (if cost \<le> available now ident rl then available now ident rl - cost
                 else available now ident rl),
      lastRefill = (if tokensToAdd rl now (the_bucket now ident rl) > 0 then now
                    else lastRefill (the_bucket now ident rl))\<rparr>"
  by (simp add: isAllowed_effect the_bucket_def Map_get_def map_of_Map_set)

lemma tokensToAdd_cong:
  "refillRate rl' = refillRate rl \<Longrightarrow> lastRefill b' = lastRefill b \<Longrightarrow>
     tokensToAdd rl' now b' = tokensToAdd rl now b"
  by (simp add: tokensToAdd_def)

lemma available_after_isAllowed:
  "available now ident (snd (RateLimiter_isAllowed now ident cost rl)) =
     (if cost \<le> available now ident rl then available now ident rl - cost
      else available now ident rl)"
proof -
  let ?rl' = "snd (RateLimiter_isAllowed now ident cost rl)"
  let ?b' = "the_bucket now ident ?rl'"
  have "tokensToAdd ?rl' now ?b' \<le> 0"
  proof (cases "tokensToAdd rl now (the_bucket now ident rl) > 0")
    case True
    then have "lastRefill ?b' = now" by (simp add: the_bucket_after_isAllowed)
    then show ?thesis by (simp add: tokensToAdd_same_instant)
  next
    case False
    then have "lastRefill ?b' = lastRefill (the_bucket now ident rl)"
      by (simp add: the_bucket_after_isAllowed)
    then have "tokensToAdd ?rl' now ?b' = tokensToAdd rl now (the_bucket now ident rl)"
      by (intro tokensToAdd_cong) simp_all
    then show ?thesis using False by simp
  qed
  then show ?thesis
    by (simp add: available_def[of now ident ?rl'] Let_def the_bucket_after_isAllowed)
qed

lemma admissions_available:
  "available now ident rl = int k \<Longrightarrow>
     fst (admissions now ident n rl) = replicate (min n k) True @ replicate (n - k) False
     \<and> available now ident (snd (admissions now ident n rl)) = int (k - min n k)"
proof (induction n arbitrary: rl k)
  case 0
  then show ?case by simp
next
  case (Suc n)
  let ?rl1 = "snd (RateLimiter_isAllowed now ident 1 rl)"
  have a: "fst (RateLimiter_isAllowed now ident 1 rl) = (1 \<le> k)"
    using Suc.prems by (simp add: isAllowed_effect)
  show ?case
  proof (cases k)
    case 0
    then have "available now ident ?rl1 = int 0"
      using Suc.prems by (simp add: available_after_isAllowed)
    from Suc.IH[OF this] a 0 show ?thesis
      by (simp add: split_beta Let_def)
  next
    case (Suc j)
    then have "available now ident ?rl1 = int j"
      using Suc.prems by (simp add: available_after_isAllowed)
    from Suc.IH[OF this] a Suc show ?thesis
      by (simp add: split_beta Let_def)
  qed
qed

lemma available_fresh: "buckets rl = [] \<Longrightarrow> available now ident rl = capacity rl"
  by (simp add: available_def the_bucket_def Map_get_def tokensToAdd_def Let_def)

lemma lastRefill_after_admissions:
  "lastRefill (the_bucket now ident rl) = now \<Longrightarrow>
     lastRefill (the_bucket now' ident (snd (admissions now ident (Suc n) rl))) = now
     \<and> refillRate (snd (admissions now ident (Suc n) rl)) = refillRate rl
     \<and> capacity (snd (admissions now ident (Suc n) rl)) = capacity rl
     \<and> Map_get (buckets (snd (admissions now ident (Suc n) rl))) ident \<noteq> None"
proof (induction n arbitrary: rl)
  case 0
  then show ?case
    by (simp add: split_beta Let_def the_bucket_after_isAllowed)
       (simp add: isAllowed_effect Map_get_def map_of_Map_set)
next
  case (Suc n)
  let ?rl1 = "snd (RateLimiter_isAllowed now ident 1 rl)"
  have "lastRefill (the_bucket now ident ?rl1) = now"
    using Suc.prems by (simp add: the_bucket_after_isAllowed)
  from Suc.IH[OF this] show ?case
    by (simp add: split_beta Let_def)
qed

text \<open>
  Claim C4 as stated, refuted: a limiter built with a negative capacity creates a bucket
  with a negative token count, and a request of negative cost raises the count of a full
  bucket above the capacity.
\<close>

theorem C4_bucket_bounds_counterexample:
  "\<not> bucket_ok (snd (RateLimiter_isAllowed 0 ''u'' 1
        \<lparr>buckets = [], capacity = - 1, refillRate = 1, windowMs = 60000\<rparr>))
   \<and> \<not> bucket_ok (snd (RateLimiter_isAllowed 0 ''u'' (- 1)
        \<lparr>buckets = [], capacity = 10, refillRate = 1, windowMs = 60000\<rparr>))"
  by (simp add: RateLimiter_isAllowed_def bucket_ok_def Map_get_def tokensToAdd_def Let_def)

text \<open>
  Claim C4, amended. For a limiter whose capacity is not negative, and as long as no
  request has a negative cost, every bucket satisfies \<open>0 \<le> tokens \<le> capacity\<close> after
  every sequence of \<open>isAllowed\<close>, \<open>getRemaining\<close>, \<open>reset\<close> and \<open>cleanup\<close>, and
  \<open>getRemaining\<close> answers within the same bounds. Consequently, for capacity 10 and a
  refill rate of 1 per second: ten unit requests at one instant are all admitted, the
  eleventh is denied, and after \<open>t\<close> whole seconds exactly \<open>min t 10\<close> of any \<open>n\<close> further
  unit requests are admitted, however large \<open>t\<close> is.
\<close>

theorem C4_bucket_bounds:
  "(0 \<le> capacity rl \<and> bucket_ok rl \<and> list_all nonneg_cost ops \<longrightarrow>
      bucket_ok (limiter_run rl ops)
      \<and> 0 \<le> fst (RateLimiter_getRemaining now ident (limiter_run rl ops))
      \<and> fst (RateLimiter_getRemaining now ident (limiter_run rl ops)) \<le> capacity rl)
   \<and> (RateLimiter_new 10 1 w = Inr rl0 \<longrightarrow>
        bucket_ok rl0
        \<and> (let rl1 = snd (admissions T0 ident 10 rl0);
                rl2 = snd (RateLimiter_isAllowed T0 ident 1 rl1)
            in fst (admissions T0 ident 10 rl0) = replicate 10 True
               \<and> \<not> fst (RateLimiter_isAllowed T0 ident 1 rl1)
               \<and> fst (admissions (T0 + 1000 * int t) ident n rl2)
                   = replicate (min n (min t 10)) True @ replicate (n - min t 10) False))"
proof (intro conjI impI)
  assume h: "0 \<le> capacity rl \<and> bucket_ok rl \<and> list_all nonneg_cost ops"
  then show "bucket_ok (limiter_run rl ops)" by (simp add: bucket_ok_run)
  have "capacity (limiter_run rl ops) = capacity rl"
    using h unfolding limiter_run_def
  proof (induction ops arbitrary: rl)
    case Nil
    then show ?case by simp
  next
    case (Cons op ops)
    then have "bucket_ok (limiter_step rl op) \<and> capacity (limiter_step rl op) = capacity rl"
      by (simp add: bucket_ok_step)
    then show ?case using Cons by simp
  qed
  then show "0 \<le> fst (RateLimiter_getRemaining now ident (limiter_run rl ops))"
    "fst (RateLimiter_getRemaining now ident (limiter_run rl ops)) \<le> capacity rl"
    using h getRemaining_bounds[of "limiter_run rl ops" now ident] by simp_all
next
  assume "RateLimiter_new 10 1 w = Inr rl0"
  then show "bucket_ok rl0" by (auto simp: RateLimiter_new_def bucket_ok_def)
next
  assume new: "RateLimiter_new 10 1 w = Inr rl0"
  then have rl0: "buckets rl0 = []" "capacity rl0 = 10" "refillRate rl0 = 1"
    by (auto simp: RateLimiter_new_def)
  define rl1 where "rl1 = snd (admissions T0 ident 10 rl0)"
  define rl2 where "rl2 = snd (RateLimiter_isAllowed T0 ident 1 rl1)"
  have av0: "available T0 ident rl0 = int 10" using rl0 by (simp add: available_fresh)
  have ph1: "fst (admissions T0 ident 10 rl0) = replicate 10 True"
    and av1: "available T0 ident rl1 = 0"
    using admissions_available[OF av0, of 10] by (simp_all add: rl1_def)
  have "lastRefill (the_bucket T0 ident rl0) = T0" using rl0 by (simp add: the_bucket_def Map_get_def)
  from lastRefill_after_admissions[OF this, of T0 9]
  have b1: "lastRefill (the_bucket T0 ident rl1) = T0" "refillRate rl1 = 1" "capacity rl1 = 10"
    using rl0 by (simp_all add: rl1_def)
  have ph2: "\<not> fst (RateLimiter_isAllowed T0 ident 1 rl1)"
    using av1 by (simp add: isAllowed_effect)
  have t1: "tokensToAdd rl1 T0 (the_bucket T0 ident rl1) = 0"
    using b1 by (simp add: tokensToAdd_same_instant)
  have b2: "the_bucket (T0 + 1000 * int t) ident rl2 = \<lparr>tokens = 0, lastRefill = T0\<rparr>"
    using av1 t1 b1 by (simp add: rl2_def the_bucket_after_isAllowed)
  have c2: "capacity rl2 = 10" "refillRate rl2 = 1" using b1 by (simp_all add: rl2_def)
  have av2: "available (T0 + 1000 * int t) ident rl2 = int (min t 10)"
    using b2 c2 by (auto simp: available_def tokensToAdd_def Let_def min_def)
  have ph3: "fst (admissions (T0 + 1000 * int t) ident n rl2)
      = replicate (min n (min t 10)) True @ replicate (n - min t 10) False"
    using admissions_available[OF av2, of n] by simp
  show "let rl1 = snd (admissions T0 ident 10 rl0);
            rl2 = snd (RateLimiter_isAllowed T0 ident 1 rl1)
        in fst (admissions T0 ident 10 rl0) = replicate 10 True
           \<and> \<not> fst (RateLimiter_isAllowed T0 ident 1 rl1)
           \<and> fst (admissions (T0 + 1000 * int t) ident n rl2)
               = replicate (min n (min t 10)) True @ replicate (n - min t 10) False"
    using ph1 ph2 ph3 by (simp add: rl1_def rl2_def Let_def)
qed

text \<open>
  The amended statement on a run of all four operations, and on a wait of 100 seconds
  followed by 12 requests.
\<close>

theorem C4_bucket_bounds_witness:
  "bucket_ok (limiter_run \<lparr>buckets = [], capacity = 10, refillRate = 1, windowMs = 60000\<rparr>
      [IsAllowed 0 ''u'' 1, GetRemaining 0 ''u'', IsAllowed 2500 ''v'' 3, Cleanup 5000, Reset ''u''])
   \<and> (let rl0 = \<lparr>buckets = [], capacity = 10, refillRate = 1, windowMs = 60000\<rparr>;
           rl1 = snd (admissions 0 ''u'' 10 rl0);
           rl2 = snd (RateLimiter_isAllowed 0 ''u'' 1 rl1)
       in fst (admissions 0 ''u'' 10 rl0) = replicate 10 True
          \<and> \<not> fst (RateLimiter_isAllowed 0 ''u'' 1 rl1)
          \<and> fst (admissions (0 + 1000 * int 100) ''u'' 12 rl2)
              = replicate (min 12 (min 100 10)) True @ replicate (12 - min 100 10) False)"
  using C4_bucket_bounds [where rl = "\<lparr>buckets = [], capacity = 10, refillRate = 1, windowMs = 60000\<rparr>"
      and ops = "[IsAllowed 0 ''u'' 1, GetRemaining 0 ''u'', IsAllowed 2500 ''v'' 3, Cleanup 5000, Reset ''u'']"
      and w = 60000 and ?rl0.0 = "\<lparr>buckets = [], capacity = 10, refillRate = 1, windowMs = 60000\<rparr>"
      and ?T0.0 = 0 and ident = "''u''" and t = 100 and n = 12 and now = 0]
  by (simp add: RateLimiter_new_def bucket_ok_def)

section \<open>Embedding gateway: the two loops of the batch operation\<close>

lemma ttl_LRUCache_get [simp]: "ttl (snd (LRUCache_get now k c)) = ttl c"
  by (simp add: LRUCache_get_def Let_def split: option.splits)








section \<open>Embedding gateway: the batch operation\<close>




section \<open>Memory store: the paths through a search\<close>

lemma fallbackTextSearch_state [simp]: "snd (fallbackTextSearch user query limit s) = s"
  by (simp add: fallbackTextSearch_def)

lemma fallbackTextSearch_cong:
  "rows s' = rows s \<Longrightarrow> dbUp s' = dbUp s \<Longrightarrow>
     fst (fallbackTextSearch user query limit s') = fst (fallbackTextSearch user query limit s)"
  by (simp add: fallbackTextSearch_def)


lemma searchMemories_denied:
  "\<not> fst (RateLimiter_isAllowed now user 1 (memoryRateLimiter s)) \<Longrightarrow>
     searchMemories E now later user query limit threshold s =
       fallbackTextSearch user query limit
         (s\<lparr>memoryRateLimiter := snd (RateLimiter_isAllowed now user 1 (memoryRateLimiter s))\<rparr>)"
  by (simp add: searchMemories_def split_beta Let_def)

lemma searchMemories_hit:
  "fst (RateLimiter_isAllowed now user 1 (memoryRateLimiter s)) \<Longrightarrow>
   fst (LRUCache_get now (hashQuery E user query limit threshold) (queryCache s)) = Some r \<Longrightarrow>
     searchMemories E now later user query limit threshold s =
       (Inr r, s\<lparr>memoryRateLimiter := snd (RateLimiter_isAllowed now user 1 (memoryRateLimiter s)),
                 queryCache := snd (LRUCache_get now (hashQuery E user query limit threshold) (queryCache s))\<rparr>)"
  by (simp add: searchMemories_def split_beta Let_def)




lemma get_hit:
  "Map_get (cache c) k = Some e \<Longrightarrow> now - timestamp e \<le> ttl c \<Longrightarrow>
     fst (LRUCache_get now k c) = Some (entry_value e)"
  by (simp add: LRUCache_get_def Let_def)




lemma select_recent_sorted:
  "sorted (map (\<lambda>m. - createdAt m) (select_recent user limit ms))"
proof -
  let ?f = "\<lambda>m. - createdAt m"
  have "sorted (map ?f (sort_key ?f (filter (\<lambda>m. userId m = user) ms)))"
    by (rule sorted_sort_key)
  then have "sorted (take (nat limit) (map ?f (sort_key ?f (filter (\<lambda>m. userId m = user) ms))))"
    by (rule sorted_wrt_take)
  then show ?thesis by (simp only: select_recent_def take_map)
qed

lemma score_two_valued:
  "snd (score query m) = (if String_includes (toLowerCase (content m)) (toLowerCase query)
                          then 8 / 10 else 5 / 10)
   \<and> fst (score query m) = m"
  by (simp add: score_def Let_def)

lemma deleteMemory_other_owner:
  assumes "distinct (map mem_id (rows s))" "m \<in> set (rows s)" "userId m \<noteq> other"
  shows "filter (\<lambda>r. mem_id r = mem_id m \<and> userId r = other) (rows s) = []"
proof -
  have "\<And>r. r \<in> set (rows s) \<Longrightarrow> mem_id r = mem_id m \<Longrightarrow> r = m"
    using assms(1,2) by (meson distinct_map inj_onD)
  then show ?thesis using assms(3) by (auto simp: filter_empty_conv)
qed


lemma toLowerCase_example: "toLowerCase ''Likes FOO bars'' = ''likes foo bars''"
  by code_simp

lemma score_example_hit: "score ''foo'' (memory_row ''m1'' ''u1'' ''Likes FOO bars'' 10) = (memory_row ''m1'' ''u1'' ''Likes FOO bars'' 10, 4/5)"
  by code_simp

lemma score_example_miss: "score ''foo'' (memory_row ''m3'' ''u1'' ''Lives in Oslo'' 30) = (memory_row ''m3'' ''u1'' ''Lives in Oslo'' 30, 1/2)"
  by code_simp

lemma select_recent_example: "select_recent ''u1'' 5 example_rows = [memory_row ''m3'' ''u1'' ''Lives in Oslo'' 30, memory_row ''m1'' ''u1'' ''Likes FOO bars'' 10]"
  by (simp add: select_recent_def example_rows_def memory_row_def)


lemmas store_defs = example_store_def example_env_def broken_index_env_def cached_store_def
  private_store_def exhausted_def example_rows_def memory_row_def

lemmas op_defs = RateLimiter_isAllowed_def LRUCache_get_def LRUCache_set_def Map_get_def Map_delete_def
  tokensToAdd_def hashQuery_def hashText_def evict_first_def

section \<open>Memory store: deletion by a user who is not the owner\<close>

text \<open>
  Claim C2. In a table whose ids are unique (the primary key), for a row owned by one
  user and any other user id, \<open>deleteMemory\<close> with the row's id and the other user
  returns \<open>false\<close> (or the database error when the database does not answer) and
  leaves the whole store as it was; and the caller gets the very answer it would get
  from a table that holds no row with that id.
\<close>

theorem C2_delete_owner_isolation:
  "distinct (map mem_id (rows s)) \<and> m \<in> set (rows s) \<and> userId m \<noteq> other \<longrightarrow>
     deleteMemory (mem_id m) other s = (if dbUp s then Inr False else Inl DbFailure, s)
     \<and> fst (deleteMemory (mem_id m) other s)
         = fst (deleteMemory (mem_id m) other (s\<lparr>rows := filter (\<lambda>r. mem_id r \<noteq> mem_id m) (rows s)\<rparr>))"
proof
  assume h: "distinct (map mem_id (rows s)) \<and> m \<in> set (rows s) \<and> userId m \<noteq> other"
  then have none: "filter (\<lambda>r. mem_id r = mem_id m \<and> userId r = other) (rows s) = []"
    using deleteMemory_other_owner by blast
  then have keep: "filter (\<lambda>r. \<not> (mem_id r = mem_id m \<and> userId r = other)) (rows s) = rows s"
    by (simp add: filter_empty_conv filter_id_conv)
  have gone: "filter (\<lambda>r. mem_id r = mem_id m \<and> userId r = other)
                (filter (\<lambda>r. mem_id r \<noteq> mem_id m) (rows s)) = []"
    by (simp add: filter_empty_conv)
  show "deleteMemory (mem_id m) other s = (if dbUp s then Inr False else Inl DbFailure, s)
     \<and> fst (deleteMemory (mem_id m) other s)
         = fst (deleteMemory (mem_id m) other (s\<lparr>rows := filter (\<lambda>r. mem_id r \<noteq> mem_id m) (rows s)\<rparr>))"
    using none keep gone by (simp add: deleteMemory_def Let_def)
qed

text \<open>An attacker deleting the victim's row, and the same call on the empty table.\<close>

theorem C2_delete_owner_isolation_witness:
  "(let victim_row = \<lparr>mem_id = ''m1'', userId = ''victim'', content = ''secret'', embedding = None,
                       metadata = ''{}'', importance = ''medium'', createdAt = 1, updatedAt = 1\<rparr>;
        s = \<lparr>memoryRateLimiter = \<lparr>buckets = [], capacity = 200, refillRate = 20, windowMs = 60000\<rparr>,
             queryCache = \<lparr>cache = [], maxSize = 200, ttl = 1800000\<rparr>,
             gateway = \<lparr>embeddingCache = \<lparr>cache = [], maxSize = 500, ttl = 86400000\<rparr>,
                        embeddingRateLimiter = \<lparr>buckets = [], capacity = 100, refillRate = 10, windowMs = 60000\<rparr>,
                        providerCalls = []\<rparr>,
             rows = [victim_row], dbUp = True, indexQueries = 0\<rparr>
    in deleteMemory ''m1'' ''attacker'' s = (Inr False, s)
       \<and> fst (deleteMemory ''m1'' ''attacker'' s) = fst (deleteMemory ''m1'' ''attacker'' (s\<lparr>rows := []\<rparr>)))"
  using C2_delete_owner_isolation [where other = "''attacker''"
      and m = "\<lparr>mem_id = ''m1'', userId = ''victim'', content = ''secret'', embedding = None,
                       metadata = ''{}'', importance = ''medium'', createdAt = 1, updatedAt = 1\<rparr>"
      and s = "\<lparr>memoryRateLimiter = \<lparr>buckets = [], capacity = 200, refillRate = 20, windowMs = 60000\<rparr>,
             queryCache = \<lparr>cache = [], maxSize = 200, ttl = 1800000\<rparr>,
             gateway = \<lparr>embeddingCache = \<lparr>cache = [], maxSize = 500, ttl = 86400000\<rparr>,
                        embeddingRateLimiter = \<lparr>buckets = [], capacity = 100, refillRate = 10, windowMs = 60000\<rparr>,
                        providerCalls = []\<rparr>,
             rows = [\<lparr>mem_id = ''m1'', userId = ''victim'', content = ''secret'', embedding = None,
                       metadata = ''{}'', importance = ''medium'', createdAt = 1, updatedAt = 1\<rparr>],
             dbUp = True, indexQueries = 0\<rparr>"]
  by (simp add: Let_def deleteMemory_def)

section \<open>Memory store: search\<close>






text \<open>
  Claim C1 as stated, refuted: with the request's key in the query cache, a search
  changes the limiter's state (the bucket is created and debited); and when the user's
  bucket is spent, the search does not return the cached list but the lexical fallback.
\<close>

theorem C1_cache_hit_counterexample:
  "Map_has (cache (queryCache cached_store)) (hashQuery example_env ''u1'' ''foo'' 5 (7 / 10))
   \<and> memoryRateLimiter (snd (searchMemories example_env 1 2 ''u1'' ''foo'' 5 (7 / 10) cached_store))
       \<noteq> memoryRateLimiter cached_store
   \<and> Map_has (cache (queryCache (exhausted ''u1'' cached_store)))
        (hashQuery example_env ''u1'' ''foo'' 5 (7 / 10))
   \<and> fst (searchMemories example_env 0 1 ''u1'' ''foo'' 5 (7 / 10) (exhausted ''u1'' cached_store))
       \<noteq> Inr [(memory_row ''m1'' ''u1'' ''Likes FOO bars'' 10, 9 / 10)]"
proof -
  have "fst (searchMemories example_env 0 1 ''u1'' ''foo'' 5 (7 / 10) (exhausted ''u1'' cached_store))
      = Inr [(memory_row ''m3'' ''u1'' ''Lives in Oslo'' 30, 1 / 2),
             (memory_row ''m1'' ''u1'' ''Likes FOO bars'' 10, 4 / 5)]"
    by (simp add: searchMemories_def fallbackTextSearch_def store_defs op_defs Let_def select_recent_example[unfolded store_defs]
        score_example_hit[unfolded store_defs] score_example_miss[unfolded store_defs])
  moreover have "memoryRateLimiter (snd (searchMemories example_env 1 2 ''u1'' ''foo'' 5 (7 / 10) cached_store))
       \<noteq> memoryRateLimiter cached_store"
    by (simp add: searchMemories_def store_defs op_defs Let_def)
  moreover have "Map_has (cache (queryCache cached_store)) (hashQuery example_env ''u1'' ''foo'' 5 (7 / 10))"
    "Map_has (cache (queryCache (exhausted ''u1'' cached_store)))
        (hashQuery example_env ''u1'' ''foo'' 5 (7 / 10))"
    by (simp_all add: Map_has_def store_defs op_defs)
  ultimately show ?thesis by simp
qed

text \<open>
  Claim C1, amended. \<open>searchMemories\<close> consults the per-user limiter before the query
  cache. When the request's key is in the query cache with an entry not older than the
  time to live: the limiter's new state is that of one \<open>isAllowed\<close> call of cost 1; the
  gateway (so the provider log), the count of index queries and the table are
  unchanged; if the limiter admits, the result is the cached list and one token has
  been debited; if it denies, the result is the lexical fallback's.
\<close>

theorem C1_cache_hit_after_rate_limit:
  "Map_get (cache (queryCache s)) (hashQuery E user query limit threshold) = Some e
   \<and> now - timestamp e \<le> ttl (queryCache s)
   \<longrightarrow>
     (let out = searchMemories E now later user query limit threshold s;
          allowed = fst (RateLimiter_isAllowed now user 1 (memoryRateLimiter s))
      in memoryRateLimiter (snd out) = snd (RateLimiter_isAllowed now user 1 (memoryRateLimiter s))
         \<and> gateway (snd out) = gateway s
         \<and> indexQueries (snd out) = indexQueries s
         \<and> rows (snd out) = rows s
         \<and> (allowed \<longrightarrow>
               fst out = Inr (entry_value e)
               \<and> available now user (memoryRateLimiter (snd out))
                   = available now user (memoryRateLimiter s) - 1)
         \<and> (\<not> allowed \<longrightarrow> fst out = fst (fallbackTextSearch user query limit s)))"
proof
  let ?key = "hashQuery E user query limit threshold"
  let ?rl = "snd (RateLimiter_isAllowed now user 1 (memoryRateLimiter s))"
  assume h: "Map_get (cache (queryCache s)) ?key = Some e \<and> now - timestamp e \<le> ttl (queryCache s)"
  then have hit: "fst (LRUCache_get now ?key (queryCache s)) = Some (entry_value e)"
    by (simp add: get_hit)
  show "let out = searchMemories E now later user query limit threshold s;
          allowed = fst (RateLimiter_isAllowed now user 1 (memoryRateLimiter s))
      in memoryRateLimiter (snd out) = snd (RateLimiter_isAllowed now user 1 (memoryRateLimiter s))
         \<and> gateway (snd out) = gateway s
         \<and> indexQueries (snd out) = indexQueries s
         \<and> rows (snd out) = rows s
         \<and> (allowed \<longrightarrow>
               fst out = Inr (entry_value e)
               \<and> available now user (memoryRateLimiter (snd out))
                   = available now user (memoryRateLimiter s) - 1)
         \<and> (\<not> allowed \<longrightarrow> fst out = fst (fallbackTextSearch user query limit s))"
  proof (cases "fst (RateLimiter_isAllowed now user 1 (memoryRateLimiter s))")
    case True
    have "1 \<le> available now user (memoryRateLimiter s)"
      using True by (simp add: isAllowed_effect)
    then have av: "available now user ?rl = available now user (memoryRateLimiter s) - 1"
      by (simp add: available_after_isAllowed)
    show ?thesis
      unfolding Let_def searchMemories_hit[OF True hit] using True av by simp
  next
    case False
    have f: "fst (fallbackTextSearch user query limit (s\<lparr>memoryRateLimiter := ?rl\<rparr>))
        = fst (fallbackTextSearch user query limit s)"
      by (rule fallbackTextSearch_cong) simp_all
    show ?thesis
      unfolding Let_def searchMemories_denied[OF False] using False f by simp
  qed
qed

text \<open>A hit on the cached request by a user with a full bucket.\<close>

theorem C1_cache_hit_after_rate_limit_witness:
  "fst (searchMemories example_env 1 2 ''u1'' ''foo'' 5 (7 / 10) cached_store)
     = Inr [(memory_row ''m1'' ''u1'' ''Likes FOO bars'' 10, 9 / 10)]
   \<and> available 1 ''u1'' (memoryRateLimiter (snd (searchMemories example_env 1 2 ''u1'' ''foo'' 5 (7 / 10)
                                                  cached_store))) = 200 - 1
   \<and> gateway (snd (searchMemories example_env 1 2 ''u1'' ''foo'' 5 (7 / 10) cached_store))
       = gateway cached_store
   \<and> indexQueries (snd (searchMemories example_env 1 2 ''u1'' ''foo'' 5 (7 / 10) cached_store)) = 0"
proof -
  define e :: "ScoredMemory list CacheEntry" where
    "e = \<lparr>entry_value = [(memory_row ''m1'' ''u1'' ''Likes FOO bars'' 10, 9 / 10)],
          timestamp = 0, accessCount = 1\<rparr>"
  have c: "Map_get (cache (queryCache cached_store)) (hashQuery example_env ''u1'' ''foo'' 5 (7 / 10)) = Some e"
    by (simp add: e_def cached_store_def example_store_def LRUCache_set_def Map_get_def)
  have t: "1 - timestamp e \<le> ttl (queryCache cached_store)"
    by (simp add: e_def cached_store_def example_store_def LRUCache_set_def Map_get_def)
  have a: "fst (RateLimiter_isAllowed 1 ''u1'' 1 (memoryRateLimiter cached_store))"
    by (simp add: cached_store_def example_store_def RateLimiter_isAllowed_def Map_get_def
        tokensToAdd_def Let_def)
  have av: "available 1 ''u1'' (memoryRateLimiter cached_store) = 200"
    by (simp add: cached_store_def example_store_def available_fresh)
  have iq: "indexQueries cached_store = 0" by (simp add: cached_store_def example_store_def)
  from C1_cache_hit_after_rate_limit[of cached_store example_env "''u1''" "''foo''" 5 "7 / 10" e 1 2]
    c t a
  have "fst (searchMemories example_env 1 2 ''u1'' ''foo'' 5 (7 / 10) cached_store) = Inr (entry_value e)
     \<and> available 1 ''u1'' (memoryRateLimiter (snd (searchMemories example_env 1 2 ''u1'' ''foo'' 5 (7 / 10)
                                                  cached_store)))
         = available 1 ''u1'' (memoryRateLimiter cached_store) - 1
     \<and> gateway (snd (searchMemories example_env 1 2 ''u1'' ''foo'' 5 (7 / 10) cached_store))
       = gateway cached_store
     \<and> indexQueries (snd (searchMemories example_env 1 2 ''u1'' ''foo'' 5 (7 / 10) cached_store))
       = indexQueries cached_store"
    unfolding Let_def by metis
  then show ?thesis by (simp add: av iq e_def)
qed




end
